theory Spec2Isabelle
  imports Complex_Main "HOL-Library.AList"
begin

section \<open>Python values\<close>

text \<open>
  Frames are what \<open>json.loads\<close> returns: \<open>None\<close>, booleans, integers (unbounded),
  floats, strings, lists and dictionaries. A finite float is a rational number, which is
  how \<open>PFloat\<close> carries it. A dictionary is an association list in insertion order. Its
  keys are hashable values up to Python's equality, under which \<open>1\<close>, \<open>1.0\<close> and \<open>True\<close>
  are one key: \<open>KNum\<close> holds the common numeric value.
\<close>

datatype key = KNone | KNum rat | KStr string

datatype pyval =
    PNone
  | PBool bool
  | PInt int
  | PFloat rat
  | PStr string
  | PList "pyval list"
  | PDict "(key \<times> pyval) list"

type_synonym pydict = "(key \<times> pyval) list"

datatype reason = NotConnected | NotAuthenticated

datatype error =
    RuntimeError reason
  | AttributeError
  | TypeError
  | KeyError
  | IndexError
  | TransportError

text \<open>\<open>bool(v)\<close>: the values Python treats as false in a condition.\<close>

fun truthy :: "pyval \<Rightarrow> bool" where
  "truthy PNone = False"
| "truthy (PBool b) = b"
| "truthy (PInt i) = (i \<noteq> 0)"
| "truthy (PFloat r) = (r \<noteq> 0)"
| "truthy (PStr s) = (s \<noteq> [])"
| "truthy (PList xs) = (xs \<noteq> [])"
| "truthy (PDict kvs) = (kvs \<noteq> [])"

text \<open>The key a value hashes to; lists and dictionaries are unhashable (\<open>TypeError\<close>).\<close>

fun key_of :: "pyval \<Rightarrow> key option" where
  "key_of PNone = Some KNone"
| "key_of (PBool b) = Some (KNum (if b then 1 else 0))"
| "key_of (PInt i) = Some (KNum (of_int i))"
| "key_of (PFloat r) = Some (KNum r)"
| "key_of (PStr s) = Some (KStr s)"
| "key_of (PList xs) = None"
| "key_of (PDict kvs) = None"

text \<open>A key read back as a value, for iteration over a dictionary; no key is a dictionary.\<close>

fun key_val :: "key \<Rightarrow> pyval" where
  "key_val KNone = PNone"
| "key_val (KNum r) = PFloat r"
| "key_val (KStr s) = PStr s"

text \<open>\<open>d.get(name)\<close> and \<open>d.get(name, default)\<close> on a dictionary.\<close>

definition dget :: "pydict \<Rightarrow> string \<Rightarrow> pyval" where
  "dget d name = (case map_of d (KStr name) of None \<Rightarrow> PNone | Some v \<Rightarrow> v)"

definition dget_default :: "pydict \<Rightarrow> string \<Rightarrow> pyval \<Rightarrow> pyval" where
  "dget_default d name dflt = (case map_of d (KStr name) of None \<Rightarrow> dflt | Some v \<Rightarrow> v)"

text \<open>\<open>for x in v\<close>: the elements a value yields, or \<open>TypeError\<close> when it is not iterable.\<close>

fun iter_items :: "pyval \<Rightarrow> error + pyval list" where
  "iter_items (PList xs) = Inr xs"
| "iter_items (PDict kvs) = Inr (map (key_val \<circ> fst) kvs)"
| "iter_items (PStr s) = Inr (map (\<lambda>c. PStr [c]) s)"
| "iter_items v = Inl TypeError"

text \<open>\<open>s.endswith(suf)\<close> and \<open>s.replace(old, new)\<close> on strings.\<close>

definition endswith :: "string \<Rightarrow> string \<Rightarrow> bool" where
  "endswith s suf = (length suf \<le> length s \<and> drop (length s - length suf) s = suf)"

function str_replace :: "string \<Rightarrow> string \<Rightarrow> string \<Rightarrow> string" where
  "str_replace old new s =
     (if old = [] then new @ concat (map (\<lambda>c. c # new) s)
      else if s = [] then []
      else if take (length old) s = old
        then new @ str_replace old new (drop (length old) s)
      else hd s # str_replace old new (tl s))"
  by pat_completeness auto
termination
  by (relation "measure (\<lambda>(old, new, s). length s)") auto

declare str_replace.simps [simp del]

section \<open>The client\<close>

text \<open>
  A pending callback is one of the closures the client registers itself, or a callable
  handed in by a caller. The caller's callable is opaque: invoking it is recorded in the
  trace and assumed to return without touching the client.
\<close>

datatype callback =
    OnListResult string
  | HandleGetStates
  | StoreServices
  | OnUpdateResult string "callback option"
  | External nat

text \<open>
  What the client does to the outside world, in order. \<open>Reconnect\<close> marks an entry into
  \<open>_attempt_reconnect\<close>; the other actions are the calls on the websocket library and on
  callers' callables.
\<close>

datatype action =
    Sent pyval
  | Opened nat
  | OpenFailed
  | Closed nat
  | Reconnect
  | Invoked nat pyval

text \<open>
  The fields of \<open>HassClient\<close>. The handle \<open>_ws\<close> is the number of the open connection.
  \<open>url\<close> and \<open>verbose\<close> only feed \<open>print\<close> and \<open>create_connection\<close> and are left out, as
  are the two thread references; console output is not part of the state.
\<close>

record client =
  token :: string
  ws :: "nat option"
  stop_event :: bool
  current_id :: int
  callbacks :: "(key \<times> callback) list"
  last_ping_id :: "int option"
  ping_interval :: rat
  last_ping_time :: rat
  authenticated :: bool
  manual_stop :: bool
  store :: "(string \<times> pyval) list"
  trace :: "action list"

type_synonym 'a outcome = "(error + 'a) \<times> client"

definition REGISTRIES :: "(string \<times> string) list" where
  "REGISTRIES =
     [(''entity_registry'', ''entity_id''),
      (''device_registry'', ''id''),
      (''area_registry'', ''area_id''),
      (''label_registry'', ''id''),
      (''floor_registry'', ''floor_id'')]"

text \<open>\<open>__init__\<close>, for a table of registries \<open>regs\<close>.\<close>

definition init :: "(string \<times> string) list \<Rightarrow> string \<Rightarrow> client" where
  "init regs tok =
     \<lparr> token = tok, ws = None, stop_event = False, current_id = 1, callbacks = [],
       last_ping_id = None, ping_interval = 10, last_ping_time = 0,
       authenticated = False, manual_stop = False,
       store = AList.update ''states'' (PDict [])
                 (fold (\<lambda>r st. AList.update r (PDict []) st) (map fst regs) []),
       trace = [] \<rparr>"

subsection \<open>Connection supervisor\<close>

definition log :: "action \<Rightarrow> client \<Rightarrow> client" where
  "log a s = s\<lparr>trace := trace s @ [a]\<rparr>"

text \<open>\<open>_close_ws\<close>: an exception of \<open>close()\<close> is swallowed.\<close>

definition close_ws :: "client \<Rightarrow> client" where
  "close_ws s =
     (case ws s of None \<Rightarrow> s | Some c \<Rightarrow> log (Closed c) s)
       \<lparr>ws := None, authenticated := False\<rparr>"

text \<open>
  \<open>_establish_ws\<close>: \<open>opened\<close> is what \<open>create_connection\<close> does this time, a new handle or
  an exception.
\<close>

definition establish_ws :: "nat option \<Rightarrow> client \<Rightarrow> unit outcome" where
  "establish_ws opened s =
     (let s1 = s\<lparr>authenticated := False\<rparr>
      in case opened of
           None \<Rightarrow> (Inl TransportError, log OpenFailed s1)
         | Some c \<Rightarrow> (Inr (), (log (Opened c) s1)\<lparr>ws := Some c\<rparr>))"

definition attempt_reconnect :: "nat option \<Rightarrow> client \<Rightarrow> client" where
  "attempt_reconnect opened s =
     (let s1 = close_ws (log Reconnect s)
      in if manual_stop s1 then s1
         else case establish_ws opened s1 of
                (Inl e, s2) \<Rightarrow> (close_ws s2)\<lparr>ws := None\<rparr>
              | (Inr u, s2) \<Rightarrow> s2\<lparr>last_ping_id := None\<rparr>)"

text \<open>\<open>stop\<close>; joining the two threads is not modelled.\<close>

definition stop :: "client \<Rightarrow> client" where
  "stop s = close_ws (s\<lparr>manual_stop := True, stop_event := True, authenticated := False\<rparr>)"

subsection \<open>Correlator\<close>

text \<open>
  \<open>send_message\<close>: \<open>acc\<close> tells whether the transport takes the frame; when it does not,
  \<open>send\<close> raises after the id is assigned and the callback registered.
\<close>

definition send_message ::
    "(pyval \<Rightarrow> bool) \<Rightarrow> pydict \<Rightarrow> callback option \<Rightarrow> client \<Rightarrow> int outcome" where
  "send_message acc payload cb s =
     (if ws s = None then (Inl (RuntimeError NotConnected), s)
      else if \<not> authenticated s then (Inl (RuntimeError NotAuthenticated), s)
      else
        let msg_id = current_id s;
            s1 = s\<lparr>current_id := msg_id + 1\<rparr>;
            frame = PDict (AList.update (KStr ''id'') (PInt msg_id) payload);
            s2 = (case cb of
                    None \<Rightarrow> s1
                  | Some c \<Rightarrow>
                      s1\<lparr>callbacks := AList.update (KNum (of_int msg_id)) c (callbacks s1)\<rparr>)
        in if acc frame then (Inr msg_id, log (Sent frame) s2)
           else (Inl TransportError, s2))"

text \<open>A call whose returned id is dropped.\<close>

definition discard :: "'a outcome \<Rightarrow> unit outcome" where
  "discard r = (case r of (Inl e, s) \<Rightarrow> (Inl e, s) | (Inr x, s) \<Rightarrow> (Inr (), s))"

text \<open>Sequencing: the second call runs only when the first did not raise.\<close>

definition and_then :: "unit outcome \<Rightarrow> (client \<Rightarrow> unit outcome) \<Rightarrow> unit outcome" where
  "and_then r f = (case r of (Inl e, s) \<Rightarrow> (Inl e, s) | (Inr u, s) \<Rightarrow> f s)"

definition refresh_registry :: "(pyval \<Rightarrow> bool) \<Rightarrow> string \<Rightarrow> client \<Rightarrow> unit outcome" where
  "refresh_registry acc registry_name s =
     discard (send_message acc
        [(KStr ''type'', PStr (''config/'' @ registry_name @ ''/list''))]
        (Some (OnListResult registry_name)) s)"

definition update_registry ::
    "(pyval \<Rightarrow> bool) \<Rightarrow> string \<Rightarrow> callback option \<Rightarrow> pydict \<Rightarrow> client \<Rightarrow> int outcome" where
  "update_registry acc registry cb kwargs s =
     send_message acc
       (fold (\<lambda>(k, v) d. AList.update k v d) kwargs
          [(KStr ''type'', PStr (''config/'' @ registry @ ''/update''))])
       (Some (OnUpdateResult registry cb)) s"

definition get_states :: "(pyval \<Rightarrow> bool) \<Rightarrow> client \<Rightarrow> unit outcome" where
  "get_states acc s =
     discard (send_message acc [(KStr ''type'', PStr ''get_states'')] (Some HandleGetStates) s)"

subsection \<open>Callbacks\<close>

text \<open>
  The loop shared by \<open>on_list_result\<close> and \<open>_handle_get_states\<close>: each item is asked for
  its id field (\<open>AttributeError\<close> when the item is no dictionary), items whose id is
  missing or false are skipped, and a later item replaces an earlier one under the same id.
\<close>

fun build_index :: "string \<Rightarrow> pyval list \<Rightarrow> pydict \<Rightarrow> error + pydict" where
  "build_index id_field [] new_data = Inr new_data"
| "build_index id_field (item # items) new_data =
     (case item of
        PDict d \<Rightarrow>
          (let rec_id = dget d id_field
           in if truthy rec_id
              then (case key_of rec_id of
                      None \<Rightarrow> Inl TypeError
                    | Some k \<Rightarrow> build_index id_field items (AList.update k item new_data))
              else build_index id_field items new_data)
      | _ \<Rightarrow> Inl AttributeError)"

definition on_list_result ::
    "(string \<times> string) list \<Rightarrow> string \<Rightarrow> pyval \<Rightarrow> client \<Rightarrow> unit outcome" where
  "on_list_result regs registry_name msg s =
     (case msg of
        PDict m \<Rightarrow>
          if \<not> truthy (dget m ''result'') then (Inr (), s)
          else
            (let items = dget m ''result''
             in case map_of regs registry_name of
                  None \<Rightarrow> (Inl KeyError, s)
                | Some id_field \<Rightarrow>
                    (case iter_items items of
                       Inl e \<Rightarrow> (Inl e, s)
                     | Inr xs \<Rightarrow>
                         (case build_index id_field xs [] of
                            Inl e \<Rightarrow> (Inl e, s)
                          | Inr new_data \<Rightarrow>
                              (Inr (), s\<lparr>store :=
                                 AList.update registry_name (PDict new_data) (store s)\<rparr>))))
      | _ \<Rightarrow> (Inl AttributeError, s))"

definition handle_get_states :: "pyval \<Rightarrow> client \<Rightarrow> unit outcome" where
  "handle_get_states msg s =
     (case msg of
        PDict m \<Rightarrow>
          (case iter_items (dget_default m ''result'' (PList [])) of
             Inl e \<Rightarrow> (Inl e, s)
           | Inr xs \<Rightarrow>
               (case build_index ''entity_id'' xs [] of
                  Inl e \<Rightarrow> (Inl e, s)
                | Inr new_states \<Rightarrow>
                    (Inr (), s\<lparr>store := AList.update ''states'' (PDict new_states) (store s)\<rparr>)))
      | _ \<Rightarrow> (Inl AttributeError, s))"

text \<open>The \<open>lambda\<close> registered for \<open>get_services\<close>.\<close>

definition store_services :: "pyval \<Rightarrow> client \<Rightarrow> unit outcome" where
  "store_services msg s =
     (case msg of
        PDict m \<Rightarrow>
          (Inr (), s\<lparr>store :=
             AList.update ''services'' (dget_default m ''result'' (PDict [])) (store s)\<rparr>)
      | _ \<Rightarrow> (Inl AttributeError, s))"

text \<open>\<open>cb(data)\<close>.\<close>

fun invoke ::
    "(string \<times> string) list \<Rightarrow> (pyval \<Rightarrow> bool) \<Rightarrow> callback \<Rightarrow> pyval \<Rightarrow> client
       \<Rightarrow> unit outcome" where
  "invoke regs acc (OnListResult registry_name) msg s = on_list_result regs registry_name msg s"
| "invoke regs acc HandleGetStates msg s = handle_get_states msg s"
| "invoke regs acc StoreServices msg s = store_services msg s"
| "invoke regs acc (OnUpdateResult registry None) msg s = refresh_registry acc registry s"
| "invoke regs acc (OnUpdateResult registry (Some cb)) msg s =
     (case refresh_registry acc registry s of
        (Inl e, s') \<Rightarrow> (Inl e, s')
      | (Inr u, s') \<Rightarrow> invoke regs acc cb msg s')"
| "invoke regs acc (External n) msg s = (Inr (), log (Invoked n msg) s)"

text \<open>
  \<open>if msg_id in self._callbacks: cb = self._callbacks.pop(msg_id); cb(data)\<close>. Every
  registered callback is a callable, so the \<open>if cb:\<close> of two of the three call sites
  always passes.
\<close>

definition resolve ::
    "(string \<times> string) list \<Rightarrow> (pyval \<Rightarrow> bool) \<Rightarrow> pyval \<Rightarrow> pyval \<Rightarrow> client
       \<Rightarrow> unit outcome" where
  "resolve regs acc msg_id data s =
     (case key_of msg_id of
        None \<Rightarrow> (Inl TypeError, s)
      | Some k \<Rightarrow>
          (case map_of (callbacks s) k of
             None \<Rightarrow> (Inr (), s)
           | Some cb \<Rightarrow>
               invoke regs acc cb data (s\<lparr>callbacks := AList.delete k (callbacks s)\<rparr>)))"

subsection \<open>Authenticator and bootstrap\<close>

definition send_auth :: "(pyval \<Rightarrow> bool) \<Rightarrow> client \<Rightarrow> unit outcome" where
  "send_auth acc s =
     (case ws s of
        None \<Rightarrow> (Inr (), s)
      | Some c \<Rightarrow>
          (let s1 = s\<lparr>authenticated := False\<rparr>;
               frame = PDict [(KStr ''type'', PStr ''auth''),
                              (KStr ''access_token'', PStr (token s))]
           in if acc frame then (Inr (), log (Sent frame) s1)
              else (Inl TransportError, s1)))"

fun refresh_all :: "(pyval \<Rightarrow> bool) \<Rightarrow> string list \<Rightarrow> client \<Rightarrow> unit outcome" where
  "refresh_all acc [] s = (Inr (), s)"
| "refresh_all acc (registry_name # names) s =
     (case refresh_registry acc registry_name s of
        (Inl e, s') \<Rightarrow> (Inl e, s')
      | (Inr u, s') \<Rightarrow> refresh_all acc names s')"

definition post_auth_init ::
    "(string \<times> string) list \<Rightarrow> (pyval \<Rightarrow> bool) \<Rightarrow> client \<Rightarrow> unit outcome" where
  "post_auth_init regs acc s =
     and_then (discard (send_message acc [(KStr ''type'', PStr ''subscribe_events'')] None
                          (s\<lparr>authenticated := True\<rparr>)))
       (\<lambda>s1. and_then (refresh_all acc (map fst regs) s1)
         (\<lambda>s2. and_then (get_states acc s2)
           (\<lambda>s3. discard (send_message acc [(KStr ''type'', PStr ''get_services'')]
                             (Some StoreServices) s3))))"

subsection \<open>Event router\<close>

text \<open>\<open>container[k] = v\<close> on a dictionary or a list.\<close>

definition list_set :: "pyval list \<Rightarrow> int \<Rightarrow> pyval \<Rightarrow> error + pyval" where
  "list_set xs i v =
     (if 0 \<le> i \<and> i < int (length xs) then Inr (PList (xs[nat i := v]))
      else if i < 0 \<and> - int (length xs) \<le> i
        then Inr (PList (xs[nat (int (length xs) + i) := v]))
      else Inl IndexError)"

fun set_item :: "pyval \<Rightarrow> pyval \<Rightarrow> pyval \<Rightarrow> error + pyval" where
  "set_item (PDict d) k v =
     (case key_of k of None \<Rightarrow> Inl TypeError | Some kk \<Rightarrow> Inr (PDict (AList.update kk v d)))"
| "set_item (PList xs) (PInt i) v = list_set xs i v"
| "set_item (PList xs) (PBool b) v = list_set xs (if b then 1 else 0) v"
| "set_item c k v = Inl TypeError"

definition handle_state_changed_event :: "pydict \<Rightarrow> client \<Rightarrow> unit outcome" where
  "handle_state_changed_event event_obj s =
     (case dget_default event_obj ''data'' (PDict []) of
        PDict data \<Rightarrow>
          (let entity_id = dget data ''entity_id''
           in if \<not> truthy entity_id then (Inr (), s)
              else
                (let new_state = dget data ''new_state''
                 in if new_state \<noteq> PNone
                    then (case map_of (store s) ''states'' of
                            None \<Rightarrow> (Inl KeyError, s)
                          | Some tbl \<Rightarrow>
                              (case set_item tbl entity_id new_state of
                                 Inl e \<Rightarrow> (Inl e, s)
                               | Inr tbl' \<Rightarrow>
                                   (Inr (), s\<lparr>store :=
                                      AList.update ''states'' tbl' (store s)\<rparr>)))
                    else (Inr (), s)))
      | _ \<Rightarrow> (Inl AttributeError, s))"

definition handle_event ::
    "(string \<times> string) list \<Rightarrow> (pyval \<Rightarrow> bool) \<Rightarrow> pydict \<Rightarrow> client \<Rightarrow> unit outcome" where
  "handle_event regs acc data s =
     (case dget_default data ''event'' (PDict []) of
        PDict event_obj \<Rightarrow>
          (case dget event_obj ''event_type'' of
             PStr event_type \<Rightarrow>
               if event_type \<noteq> [] \<and> endswith event_type ''_registry_updated''
               then
                 (let registry_name = str_replace ''_updated'' [] event_type
                  in if map_of regs registry_name \<noteq> None
                     then and_then (refresh_registry acc registry_name s)
                            (\<lambda>s'. if registry_name = ''entity_registry''
                                  then get_states acc s' else (Inr (), s'))
                     else (Inr (), s))
               else if event_type = ''state_changed''
                 then handle_state_changed_event event_obj s
               else (Inr (), s)
           | v \<Rightarrow> if truthy v then (Inl AttributeError, s) else (Inr (), s))
      | _ \<Rightarrow> (Inl AttributeError, s))"

subsection \<open>Receiver\<close>

text \<open>
  \<open>_handle_message\<close>: \<open>loads\<close> is \<open>json.loads\<close>, \<open>None\<close> where it raises \<open>ValueError\<close>.
  A frame that is not a dictionary has no \<open>get\<close>.
\<close>

definition handle_message ::
    "(string \<times> string) list \<Rightarrow> (string \<Rightarrow> pyval option) \<Rightarrow> (pyval \<Rightarrow> bool) \<Rightarrow> string
       \<Rightarrow> client \<Rightarrow> unit outcome" where
  "handle_message regs loads acc raw_msg s =
     (case loads raw_msg of
        None \<Rightarrow> (Inr (), s)
      | Some (PDict data) \<Rightarrow>
          (let msg_type = dget data ''type''; msg_id = dget data ''id''
           in if msg_type = PStr ''auth_required'' then send_auth acc s
              else if msg_type = PStr ''auth_ok'' then post_auth_init regs acc s
              else if msg_type = PStr ''auth_invalid'' then (Inr (), stop s)
              else if msg_type = PStr ''pong''
                then and_then (resolve regs acc msg_id (PDict data) s)
                       (\<lambda>s'. (Inr (), s'\<lparr>last_ping_id := None\<rparr>))
              else if msg_type = PStr ''result''
                then (if truthy (dget_default data ''success'' (PBool False))
                      then resolve regs acc msg_id (PDict data) s
                      else (Inr (), s))
              else if msg_type = PStr ''event'' then handle_event regs acc data s
              else resolve regs acc msg_id (PDict data) s)
      | Some v \<Rightarrow> (Inl AttributeError, s))"

text \<open>
  \<open>_receiver_loop\<close>: what a call of \<open>recv\<close> delivers is a message, a timeout, or an error
  (a closed connection included). The loop is run over the list of the readings it meets;
  it ends when the stop signal is set, and an exception of the handler ends it too, since
  the handler is called outside the \<open>try\<close>.
\<close>

datatype reading = Message string | TimedOut | ReadError

definition receiver_body ::
    "(string \<times> string) list \<Rightarrow> (string \<Rightarrow> pyval option) \<Rightarrow> (pyval \<Rightarrow> bool) \<Rightarrow> reading
       \<Rightarrow> client \<Rightarrow> unit outcome" where
  "receiver_body regs loads acc r s =
     (if ws s = None then (Inr (), s)
      else case r of
             Message raw_msg \<Rightarrow>
               if raw_msg = [] then (Inr (), s)
               else handle_message regs loads acc raw_msg s
           | TimedOut \<Rightarrow> (Inr (), s)
           | ReadError \<Rightarrow> (Inr (), s\<lparr>ws := None\<rparr>))"

fun receiver_loop ::
    "(string \<times> string) list \<Rightarrow> (string \<Rightarrow> pyval option) \<Rightarrow> (pyval \<Rightarrow> bool)
       \<Rightarrow> reading list \<Rightarrow> client \<Rightarrow> unit outcome" where
  "receiver_loop regs loads acc [] s = (Inr (), s)"
| "receiver_loop regs loads acc (r # rs) s =
     (if stop_event s then (Inr (), s)
      else case receiver_body regs loads acc r s of
             (Inl e, s') \<Rightarrow> (Inl e, s')
           | (Inr u, s') \<Rightarrow> receiver_loop regs loads acc rs s')"

subsection \<open>Liveness monitor\<close>

text \<open>
  One pass through the body of the \<open>while\<close> loop of \<open>_ping_loop\<close>, at clock reading \<open>now\<close>.
\<close>

definition ping_tick ::
    "(pyval \<Rightarrow> bool) \<Rightarrow> nat option \<Rightarrow> rat \<Rightarrow> client \<Rightarrow> unit outcome" where
  "ping_tick acc opened now s =
     (if ws s = None then (Inr (), attempt_reconnect opened s)
      else if now - last_ping_time s \<ge> ping_interval s \<and> authenticated s
        then
          (let s1 = s\<lparr>last_ping_time := now\<rparr>
           in if last_ping_id s1 \<noteq> None then (Inr (), attempt_reconnect opened s1)
              else (case send_message acc [(KStr ''type'', PStr ''ping'')] None s1 of
                      (Inl e, s2) \<Rightarrow> (Inl e, s2)
                    | (Inr msg_id, s2) \<Rightarrow> (Inr (), s2\<lparr>last_ping_id := Some msg_id\<rparr>)))
      else (Inr (), s))"

text \<open>\<open>_ping_loop\<close>, over the clock readings and open results of its passes.\<close>

fun ping_loop ::
    "(pyval \<Rightarrow> bool) \<Rightarrow> (rat \<times> nat option) list \<Rightarrow> client \<Rightarrow> unit outcome" where
  "ping_loop acc [] s = (Inr (), s)"
| "ping_loop acc ((now, opened) # ticks) s =
     (if stop_event s then (Inr (), s)
      else case ping_tick acc opened now s of
             (Inl e, s') \<Rightarrow> (Inl e, s')
           | (Inr u, s') \<Rightarrow> ping_loop acc ticks s')"

subsection \<open>Executions\<close>

text \<open>
  The receiver and the monitor run as two threads over the one client. An execution is a
  sequence of their loop bodies, each taken as one step: a monitor tick, a frame read and
  handled by the receiver, or a failed read, after which the receiver drops the handle.
  The receiver reads only while a handle is present and skips an empty message. An
  exception that escapes a body ends its thread, and the stop signal ends both loops;
  the executions below go on regardless, so they include every interleaving of the two
  loops and more.
\<close>

datatype event = Tick rat "nat option" | Frame string | ReadFailure

definition step ::
    "(string \<times> string) list \<Rightarrow> (string \<Rightarrow> pyval option) \<Rightarrow> (pyval \<Rightarrow> bool) \<Rightarrow> event
       \<Rightarrow> client \<Rightarrow> client" where
  "step regs loads acc e s =
     (case e of
        Tick now opened \<Rightarrow> snd (ping_tick acc opened now s)
      | Frame raw_msg \<Rightarrow>
          (if ws s = None \<or> raw_msg = [] then s
           else snd (handle_message regs loads acc raw_msg s))
      | ReadFailure \<Rightarrow> (if ws s = None then s else s\<lparr>ws := None\<rparr>))"

definition run ::
    "(string \<times> string) list \<Rightarrow> (string \<Rightarrow> pyval option) \<Rightarrow> (pyval \<Rightarrow> bool) \<Rightarrow> event list
       \<Rightarrow> client \<Rightarrow> client" where
  "run regs loads acc es s = fold (step regs loads acc) es s"

text \<open>The steps that the bodies of the two loops are.\<close>

fun event_of :: "reading \<Rightarrow> event" where
  "event_of (Message raw_msg) = Frame raw_msg"
| "event_of TimedOut = Frame []"
| "event_of ReadError = ReadFailure"

fun tick_of :: "rat \<times> nat option \<Rightarrow> event" where
  "tick_of (now, opened) = Tick now opened"

section \<open>Observations\<close>

text \<open>A probe is a written frame of type \<open>ping\<close>; a pong is a decoded frame of type \<open>pong\<close>.\<close>

fun is_probe :: "action \<Rightarrow> bool" where
  "is_probe (Sent (PDict d)) = (dget d ''type'' = PStr ''ping'')"
| "is_probe a = False"







text \<open>
  A frame that takes the callback registered under \<open>k\<close> out of the pending map: a pong, a
  successful result, or a frame of no known type, carrying an id that hashes to \<open>k\<close>.
\<close>

definition resolves :: "(string \<Rightarrow> pyval option) \<Rightarrow> key \<Rightarrow> string \<Rightarrow> bool" where
  "resolves loads k raw_msg =
     (case loads raw_msg of
        Some (PDict d) \<Rightarrow>
          key_of (dget d ''id'') = Some k \<and>
          (dget d ''type'' = PStr ''pong'' \<or>
           (dget d ''type'' = PStr ''result'' \<and>
              truthy (dget_default d ''success'' (PBool False))) \<or>
           dget d ''type'' \<notin> {PStr ''auth_required'', PStr ''auth_ok'', PStr ''auth_invalid'',
                               PStr ''result'', PStr ''event''})
      | _ \<Rightarrow> False)"

text \<open>A step of an execution in which the receiver handles such a frame.\<close>

fun receives_resolving :: "(string \<Rightarrow> pyval option) \<Rightarrow> key \<Rightarrow> event \<Rightarrow> bool" where
  "receives_resolving loads k (Frame raw_msg) = resolves loads k raw_msg"
| "receives_resolving loads k e = False"

text \<open>
  The operations that neither touch the probe tracker nor write a probe nor attempt a
  reconnect relate the state before to the state after by \<open>quiet\<close>.
\<close>

definition quiet :: "client \<Rightarrow> client \<Rightarrow> bool" where
  "quiet s s' \<longleftrightarrow>
     last_ping_id s' = last_ping_id s \<and>
     (\<exists>new. trace s' = trace s @ new \<and> (\<forall>a \<in> set new. \<not> is_probe a \<and> a \<noteq> Reconnect))"

text \<open>The operations that leave the handle and the manual-stop flag alone.\<close>

definition steady :: "client \<Rightarrow> client \<Rightarrow> bool" where
  "steady s s' \<longleftrightarrow> ws s' = ws s \<and> manual_stop s' = manual_stop s"


text \<open>The operations that remove no pending callback.\<close>

definition keeps :: "client \<Rightarrow> client \<Rightarrow> bool" where
  "keeps s s' \<longleftrightarrow> dom (map_of (callbacks s)) \<subseteq> dom (map_of (callbacks s'))"

text \<open>
  After a stop: the handle is absent, the manual-stop flag is set, and all that has been
  added to the trace is reconnect attempts, none of which opened a connection.
\<close>

definition halted :: "client \<Rightarrow> client \<Rightarrow> bool" where
  "halted s s' \<longleftrightarrow>
     ws s' = None \<and> manual_stop s' \<and>
     (\<exists>new. trace s' = trace s @ new \<and> list_all (\<lambda>a. a = Reconnect) new)"

text \<open>The types of the request frames in a stretch of trace, in the order written.\<close>

fun request_type :: "action \<Rightarrow> pyval list" where
  "request_type (Sent (PDict d)) = [dget d ''type'']"
| "request_type a = []"

definition requests :: "action list \<Rightarrow> pyval list" where
  "requests tr = concat (map request_type tr)"



subsection \<open>A sample session\<close>

text \<open>
  A transport that takes every frame, a client that is connected and authenticated, the
  same client with probe 5 unanswered since clock reading 10, and a decoder given as a
  table: the keys stand for the wire text of the frames beside them, and any other text
  fails to parse.
\<close>

definition accepting :: "pyval \<Rightarrow> bool" where
  "accepting frame = True"

definition ready :: client where
  "ready = (init REGISTRIES ''secret'')\<lparr>ws := Some 0, authenticated := True\<rparr>"


definition wire :: "string \<Rightarrow> pyval option" where
  "wire = map_of
     [(''auth_required'', PDict [(KStr ''type'', PStr ''auth_required'')]),
      (''auth_ok'', PDict [(KStr ''type'', PStr ''auth_ok'')]),
      (''auth_invalid'', PDict [(KStr ''type'', PStr ''auth_invalid'')]),
      (''pong 7'', PDict [(KStr ''id'', PInt 7), (KStr ''type'', PStr ''pong'')]),
      (''result 7 failed'',
         PDict [(KStr ''id'', PInt 7), (KStr ''type'', PStr ''result''),
                (KStr ''success'', PBool False)]),
      (''result 7 empty'',
         PDict [(KStr ''id'', PInt 7), (KStr ''type'', PStr ''result''),
                (KStr ''success'', PBool True), (KStr ''result'', PList [])]),
      (''entity_registry_updated'',
         PDict [(KStr ''id'', PInt 1), (KStr ''type'', PStr ''event''),
                (KStr ''event'',
                   PDict [(KStr ''event_type'', PStr ''entity_registry_updated''),
                          (KStr ''data'', PDict [(KStr ''action'', PStr ''update'')])])]),
      (''kitchen on'',
         PDict [(KStr ''id'', PInt 1), (KStr ''type'', PStr ''event''),
                (KStr ''event'',
                   PDict [(KStr ''event_type'', PStr ''state_changed''),
                          (KStr ''data'',
                             PDict [(KStr ''entity_id'', PStr ''light.kitchen''),
                                    (KStr ''new_state'',
                                       PDict [(KStr ''entity_id'', PStr ''light.kitchen''),
                                              (KStr ''state'', PStr ''on'')])])])]),
      (''kitchen removed'',
         PDict [(KStr ''id'', PInt 1), (KStr ''type'', PStr ''event''),
                (KStr ''event'',
                   PDict [(KStr ''event_type'', PStr ''state_changed''),
                          (KStr ''data'',
                             PDict [(KStr ''entity_id'', PStr ''light.kitchen''),
                                    (KStr ''new_state'', PNone)])])])]"

text \<open>
  The ready client with the kitchen light in its state cache, and the ready client with one
  label in its registry cache and the callback of a label listing pending under id 7.
\<close>

definition lit :: client where
  "lit = ready\<lparr>store := AList.update ''states''
            (PDict [(KStr ''light.kitchen'',
                     PDict [(KStr ''entity_id'', PStr ''light.kitchen''),
                            (KStr ''state'', PStr ''off'')])]) (store ready)\<rparr>"

definition listing :: client where
  "listing = ready\<lparr>current_id := 8,
       callbacks := [(KNum 7, OnListResult ''label_registry'')],
       store := AList.update ''label_registry''
            (PDict [(KStr ''kitchen'',
                     PDict [(KStr ''id'', PStr ''kitchen''),
                            (KStr ''name'', PStr ''Kitchen'')])]) (store ready)\<rparr>"

section \<open>The two loops as executions\<close>

text \<open>Each loop, run by itself, does what some execution does.\<close>

lemma receiver_body_step:
  "snd (receiver_body regs loads acc r s) = step regs loads acc (event_of r) s"
  by (cases r) (auto simp: receiver_body_def step_def)

lemma run_Cons: "run regs loads acc (e # es) s = run regs loads acc es (step regs loads acc e s)"
  by (simp add: run_def)

lemma receiver_loop_run:
  "\<exists>n. snd (receiver_loop regs loads acc rs s) =
         run regs loads acc (map event_of (take n rs)) s"
proof (induction rs arbitrary: s)
  case Nil
  show ?case by (simp add: run_def)
next
  case (Cons r rs)
  show ?case
  proof (cases "stop_event s")
    case True
    then have "snd (receiver_loop regs loads acc (r # rs) s) =
        run regs loads acc (map event_of (take 0 (r # rs))) s" by (simp add: run_def)
    then show ?thesis by blast
  next
    case False
    obtain x t where b: "receiver_body regs loads acc r s = (x, t)" by fastforce
    then have t: "t = step regs loads acc (event_of r) s"
      using receiver_body_step[of regs loads acc r s] by simp
    show ?thesis
    proof (cases x)
      case (Inl e)
      with False b t have "snd (receiver_loop regs loads acc (r # rs) s) =
          run regs loads acc (map event_of (take 1 (r # rs))) s" by (simp add: run_def)
      then show ?thesis by blast
    next
      case (Inr u)
      from Cons.IH[of t] obtain n where
        "snd (receiver_loop regs loads acc rs t) = run regs loads acc (map event_of (take n rs)) t"
        by blast
      with False b t Inr have "snd (receiver_loop regs loads acc (r # rs) s) =
          run regs loads acc (map event_of (take (Suc n) (r # rs))) s" by (simp add: run_Cons)
      then show ?thesis by blast
    qed
  qed
qed

lemma ping_loop_run:
  "\<exists>n. snd (ping_loop acc ticks s) = run regs loads acc (map tick_of (take n ticks)) s"
proof (induction ticks arbitrary: s)
  case Nil
  show ?case by (simp add: run_def)
next
  case (Cons tk ticks)
  obtain now opened where tk: "tk = (now, opened)" by (cases tk)
  show ?case
  proof (cases "stop_event s")
    case True
    with tk have "snd (ping_loop acc (tk # ticks) s) =
        run regs loads acc (map tick_of (take 0 (tk # ticks))) s" by (simp add: run_def)
    then show ?thesis by blast
  next
    case False
    obtain x t where b: "ping_tick acc opened now s = (x, t)" by fastforce
    then have t: "t = step regs loads acc (Tick now opened) s" by (simp add: step_def)
    show ?thesis
    proof (cases x)
      case (Inl e)
      with False b t tk have "snd (ping_loop acc (tk # ticks) s) =
          run regs loads acc (map tick_of (take 1 (tk # ticks))) s" by (simp add: run_def)
      then show ?thesis by blast
    next
      case (Inr u)
      from Cons.IH[of t] obtain n where
        "snd (ping_loop acc ticks t) = run regs loads acc (map tick_of (take n ticks)) t"
        by blast
      with False b t Inr tk have "snd (ping_loop acc (tk # ticks) s) =
          run regs loads acc (map tick_of (take (Suc n) (tk # ticks))) s"
        by (simp add: run_Cons)
      then show ?thesis by blast
    qed
  qed
qed

section \<open>The probe tracker and the trace under quiet operations\<close>

lemma quiet_refl [simp]: "quiet s s"
  by (simp add: quiet_def)





lemma snd_discard [simp]: "snd (discard r) = snd r"
  by (auto simp: discard_def split: prod.splits sum.splits)




























section \<open>The handle and the manual-stop flag under the receiver\<close>

lemma steady_refl [simp]: "steady s s"
  by (simp add: steady_def)


















section \<open>Nominal executions\<close>











section \<open>Liveness monitor: one probe at a time\<close>





section \<open>Correlator: sending while not ready\<close>

text \<open>
  C2. When the handle is absent or the session is not authenticated, \<open>send_message\<close>
  raises \<open>RuntimeError\<close> and leaves the client as it was: nothing is written (the trace
  is part of the client), the id counter keeps its value, and no callback is registered.
\<close>

theorem send_message_not_ready:
  assumes "ws s = None \<or> \<not> authenticated s"
  shows "send_message acc payload cb s =
           (Inl (RuntimeError (if ws s = None then NotConnected else NotAuthenticated)), s)"
  using assms by (auto simp: send_message_def)

theorem send_message_not_ready_witness:
  "(ws (init REGISTRIES ''secret'') = None \<or> \<not> authenticated (init REGISTRIES ''secret'')) \<and>
   send_message accepting
      [(KStr ''type'', PStr ''call_service''), (KStr ''domain'', PStr ''light'')]
      (Some (External 0)) (init REGISTRIES ''secret'') =
     (Inl (RuntimeError NotConnected), init REGISTRIES ''secret'')"
proof -
  have h: "ws (init REGISTRIES ''secret'') = None \<or> \<not> authenticated (init REGISTRIES ''secret'')"
    by (simp add: init_def)
  have "ws (init REGISTRIES ''secret'') = None" by (simp add: init_def)
  with h send_message_not_ready[OF h] show ?thesis by simp
qed

section \<open>Receiver: a payload that does not parse\<close>



section \<open>Authenticator: rejected credentials\<close>

lemma attempt_reconnect_stopped:
  assumes "manual_stop s"
  shows "ws (attempt_reconnect opened s) = None"
    and "manual_stop (attempt_reconnect opened s)"
    and "trace (attempt_reconnect opened s) =
           trace s @ Reconnect # (case ws s of None \<Rightarrow> [] | Some c \<Rightarrow> [Closed c])"
  using assms
  by (simp_all add: attempt_reconnect_def close_ws_def log_def Let_def split: option.splits)

lemma step_halted:
  assumes "ws s = None" and "manual_stop s"
  shows "halted s (step regs loads acc e s)"
proof (cases e)
  case (Tick now opened)
  with assms attempt_reconnect_stopped[OF assms(2), of opened] show ?thesis
    by (simp add: step_def ping_tick_def halted_def)
next
  case (Frame raw)
  with assms show ?thesis by (simp add: step_def halted_def)
next
  case ReadFailure
  with assms show ?thesis by (simp add: step_def halted_def)
qed

lemma run_halted:
  assumes "ws s = None" and "manual_stop s"
  shows "halted s (run regs loads acc es s)"
  using assms
proof (induction es arbitrary: s)
  case Nil
  then show ?case by (simp add: run_def halted_def)
next
  case (Cons e es)
  let ?t = "step regs loads acc e s"
  have a: "halted s ?t" using Cons.prems by (rule step_halted)
  then have "halted ?t (run regs loads acc es ?t)" by (intro Cons.IH) (simp_all add: halted_def)
  with a show ?case by (auto simp: halted_def run_def)
qed

text \<open>
  C6. An \<open>auth_invalid\<close> frame stops the session: the stop signal and the manual-stop
  flag are set, the handle is closed and dropped, and the authenticated flag is cleared.
  From then on, whatever the monitor and the receiver do, the handle stays absent: every
  reconnect attempt returns before it opens a connection, leaving only its own mark in
  the trace.
\<close>

theorem auth_invalid_is_final:
  assumes "loads raw_msg = Some (PDict d)" and "dget d ''type'' = PStr ''auth_invalid''"
  shows "\<exists>s'. handle_message regs loads acc raw_msg s = (Inr (), s') \<and>
           stop_event s' \<and> manual_stop s' \<and> ws s' = None \<and> \<not> authenticated s' \<and>
           trace s' = trace s @ (case ws s of None \<Rightarrow> [] | Some c \<Rightarrow> [Closed c]) \<and>
           (\<forall>es opened.
              ws (run regs loads acc es s') = None \<and>
              manual_stop (run regs loads acc es s') \<and>
              (\<exists>new. trace (run regs loads acc es s') = trace s' @ new \<and>
                     list_all (\<lambda>a. a = Reconnect) new) \<and>
              ws (attempt_reconnect opened (run regs loads acc es s')) = None \<and>
              trace (attempt_reconnect opened (run regs loads acc es s')) =
                trace (run regs loads acc es s') @ [Reconnect])"
proof -
  have hm: "handle_message regs loads acc raw_msg s = (Inr (), stop s)"
    using assms by (simp add: handle_message_def)
  have st: "stop_event (stop s)" "manual_stop (stop s)" "ws (stop s) = None"
    "\<not> authenticated (stop s)"
    "trace (stop s) = trace s @ (case ws s of None \<Rightarrow> [] | Some c \<Rightarrow> [Closed c])"
    by (simp_all add: stop_def close_ws_def log_def split: option.splits)
  have "halted (stop s) (run regs loads acc es (stop s))" for es
    using st(3) st(2) by (rule run_halted)
  then have later: "ws (run regs loads acc es (stop s)) = None \<and>
      manual_stop (run regs loads acc es (stop s)) \<and>
      (\<exists>new. trace (run regs loads acc es (stop s)) = trace (stop s) @ new \<and>
             list_all (\<lambda>a. a = Reconnect) new)" for es
    by (simp add: halted_def)
  have "ws (attempt_reconnect opened (run regs loads acc es (stop s))) = None \<and>
        trace (attempt_reconnect opened (run regs loads acc es (stop s))) =
          trace (run regs loads acc es (stop s)) @ [Reconnect]" for es opened
    using later[of es] attempt_reconnect_stopped[of "run regs loads acc es (stop s)" opened]
    by simp
  with hm st later show ?thesis by simp
qed

theorem auth_invalid_is_final_witness:
  "wire ''auth_invalid'' = Some (PDict [(KStr ''type'', PStr ''auth_invalid'')]) \<and>
   dget [(KStr ''type'', PStr ''auth_invalid'')] ''type'' = PStr ''auth_invalid'' \<and>
   (\<exists>s'. handle_message REGISTRIES wire accepting ''auth_invalid'' ready = (Inr (), s') \<and>
      stop_event s' \<and> manual_stop s' \<and> ws s' = None \<and> \<not> authenticated s' \<and>
      trace s' = trace ready @ [Closed 0] \<and>
      ws (run REGISTRIES wire accepting
            [Tick 20 (Some 1), Frame ''auth_ok'', Tick 21 (Some 2)] s') = None \<and>
      ws (attempt_reconnect (Some 3)
            (run REGISTRIES wire accepting
               [Tick 20 (Some 1), Frame ''auth_ok'', Tick 21 (Some 2)] s')) = None)"
proof -
  have h1: "wire ''auth_invalid'' = Some (PDict [(KStr ''type'', PStr ''auth_invalid'')])"
    by (simp add: wire_def)
  have h2: "dget [(KStr ''type'', PStr ''auth_invalid'')] ''type'' = PStr ''auth_invalid''"
    by (simp add: dget_def)
  have h3: "ws ready = Some 0" by (simp add: ready_def)
  from auth_invalid_is_final[where loads = wire and raw_msg = "''auth_invalid''"
      and d = "[(KStr ''type'', PStr ''auth_invalid'')]" and regs = REGISTRIES
      and acc = accepting and s = ready, OF h1 h2]
  obtain s' where "handle_message REGISTRIES wire accepting ''auth_invalid'' ready = (Inr (), s')"
    "stop_event s'" "manual_stop s'" "ws s' = None" "\<not> authenticated s'"
    "trace s' = trace ready @ (case ws ready of None \<Rightarrow> [] | Some c \<Rightarrow> [Closed c])"
    "\<And>es. ws (run REGISTRIES wire accepting es s') = None"
    "\<And>es opened. ws (attempt_reconnect opened (run REGISTRIES wire accepting es s')) = None"
    by blast
  with h1 h2 h3 show ?thesis by auto
qed

section \<open>Bootstrap after authentication\<close>

lemma send_message_ready:
  assumes "ws s \<noteq> None" and "authenticated s" and "\<forall>f. acc f"
  shows "send_message acc payload cb s =
           (Inr (current_id s),
            s\<lparr>current_id := current_id s + 1,
               callbacks := (case cb of None \<Rightarrow> callbacks s
                             | Some c \<Rightarrow> AList.update (KNum (of_int (current_id s))) c (callbacks s)),
               trace := trace s @
                 [Sent (PDict (AList.update (KStr ''id'') (PInt (current_id s)) payload))]\<rparr>)"
  using assms by (simp add: send_message_def Let_def log_def split: option.splits)

lemma requests_append [simp]: "requests (xs @ ys) = requests xs @ requests ys"
  by (simp add: requests_def)

lemma requests_Nil [simp]: "requests [] = []"
  by (simp add: requests_def)

lemma requests_Cons [simp]: "requests (a # as) = request_type a @ requests as"
  by (simp add: requests_def)

lemma distinct_count_1: "distinct xs \<Longrightarrow> x \<in> set xs \<Longrightarrow> count_list xs x = 1"
  by (induction xs) auto

lemma refresh_registry_ready:
  assumes "ws s \<noteq> None" and "authenticated s" and "\<forall>f. acc f"
  shows "\<exists>s' a. refresh_registry acc r s = (Inr (), s') \<and> ws s' = ws s \<and> authenticated s' \<and>
           trace s' = trace s @ [a] \<and> requests [a] = [PStr (''config/'' @ r @ ''/list'')]"
  using assms by (simp add: refresh_registry_def discard_def send_message_ready dget_def)

lemma get_states_ready:
  assumes "ws s \<noteq> None" and "authenticated s" and "\<forall>f. acc f"
  shows "\<exists>s' a. get_states acc s = (Inr (), s') \<and> ws s' = ws s \<and> authenticated s' \<and>
           trace s' = trace s @ [a] \<and> requests [a] = [PStr ''get_states'']"
  using assms by (simp add: get_states_def discard_def send_message_ready dget_def)

lemma refresh_all_ready:
  assumes "ws s \<noteq> None" and "authenticated s" and "\<forall>f. acc f"
  shows "\<exists>s' new. refresh_all acc names s = (Inr (), s') \<and> ws s' = ws s \<and> authenticated s' \<and>
           trace s' = trace s @ new \<and> length new = length names \<and>
           requests new = map (\<lambda>r. PStr (''config/'' @ r @ ''/list'')) names"
  using assms
proof (induction names arbitrary: s)
  case Nil
  then show ?case by simp
next
  case (Cons r names)
  from refresh_registry_ready[OF Cons.prems, of r] obtain t a where
    t: "refresh_registry acc r s = (Inr (), t)" "ws t = ws s" "authenticated t"
       "trace t = trace s @ [a]" "requests [a] = [PStr (''config/'' @ r @ ''/list'')]"
    by blast
  have "ws t \<noteq> None" using t(2) Cons.prems(1) by simp
  from Cons.IH[OF this t(3) Cons.prems(3)] obtain s' new where
    s': "refresh_all acc names t = (Inr (), s')" "ws s' = ws t" "authenticated s'"
        "trace s' = trace t @ new" "length new = length names"
        "requests new = map (\<lambda>r. PStr (''config/'' @ r @ ''/list'')) names"
    by blast
  have "trace s' = trace s @ (a # new)" using t s' by simp
  moreover have "requests (a # new) = map (\<lambda>r. PStr (''config/'' @ r @ ''/list'')) (r # names)"
    using t(5) s'(6) requests_append[of "[a]" new] by simp
  ultimately show ?case using t(1,2) s'(1,2,3,5)
    by (intro exI[of _ s'] exI[of _ "a # new"]) simp
qed

lemma count_listing:
  assumes "distinct names" and "r \<in> set names"
  shows "count_list (PStr ''subscribe_events'' #
            map (\<lambda>r. PStr (''config/'' @ r @ ''/list'')) names @
            [PStr ''get_states'', PStr ''get_services'']) (PStr (''config/'' @ r @ ''/list'')) = 1"
proof -
  have inj: "inj (\<lambda>r. PStr (''config/'' @ r @ ''/list''))" by (simp add: inj_def)
  have "count_list (map (\<lambda>r. PStr (''config/'' @ r @ ''/list'')) names)
          (PStr (''config/'' @ r @ ''/list'')) = count_list names r"
    by (induction names) auto
  also have "\<dots> = 1" using assms by (rule distinct_count_1)
  finally show ?thesis by simp
qed

lemma count_other:
  assumes "take 7 t \<noteq> ''config/''"
  shows "count_list (map (\<lambda>r. PStr (''config/'' @ r @ ''/list'')) names) (PStr t) = 0"
  using assms by (induction names) auto

lemma post_auth_init_requests:
  assumes "ws s \<noteq> None" and "\<forall>f. acc f" and "distinct (map fst regs)"
  shows "\<exists>s' new. post_auth_init regs acc s = (Inr (), s') \<and> trace s' = trace s @ new \<and>
           length new = length regs + 3 \<and>
           requests new = PStr ''subscribe_events'' #
              map (\<lambda>r. PStr (''config/'' @ r @ ''/list'')) (map fst regs) @
              [PStr ''get_states'', PStr ''get_services''] \<and>
           count_list (requests new) (PStr ''get_states'') = 1 \<and>
           count_list (requests new) (PStr ''get_services'') = 1 \<and>
           list_all (\<lambda>r. count_list (requests new) (PStr (''config/'' @ r @ ''/list'')) = 1)
             (map fst regs)"
proof -
  let ?s0 = "s\<lparr>authenticated := True\<rparr>"
  let ?sub = "Sent (PDict (AList.update (KStr ''id'') (PInt (current_id s))
                 [(KStr ''type'', PStr ''subscribe_events'')]))"
  have r0: "ws ?s0 \<noteq> None" "authenticated ?s0" using assms(1) by simp_all
  obtain s1 where s1: "discard (send_message acc [(KStr ''type'', PStr ''subscribe_events'')]
        None ?s0) = (Inr (), s1)" "ws s1 = ws s" "authenticated s1"
      "trace s1 = trace s @ [?sub]"
    using send_message_ready[OF r0 assms(2), of "[(KStr ''type'', PStr ''subscribe_events'')]" None]
    by (simp add: discard_def)
  have r1: "ws s1 \<noteq> None" using s1 assms(1) by simp
  from refresh_all_ready[OF r1 s1(3) assms(2), of "map fst regs"] obtain s2 n2 where
    s2: "refresh_all acc (map fst regs) s1 = (Inr (), s2)" "ws s2 = ws s1" "authenticated s2"
        "trace s2 = trace s1 @ n2" "length n2 = length (map fst regs)"
        "requests n2 = map (\<lambda>r. PStr (''config/'' @ r @ ''/list'')) (map fst regs)"
    by blast
  have r2: "ws s2 \<noteq> None" using s2 r1 by simp
  from get_states_ready[OF r2 s2(3) assms(2)] obtain s3 a3 where
    s3: "get_states acc s2 = (Inr (), s3)" "ws s3 = ws s2" "authenticated s3"
        "trace s3 = trace s2 @ [a3]" "requests [a3] = [PStr ''get_states'']"
    by blast
  have r3: "ws s3 \<noteq> None" using s3 r2 by simp
  let ?gs = "Sent (PDict (AList.update (KStr ''id'') (PInt (current_id s3))
                 [(KStr ''type'', PStr ''get_services'')]))"
  obtain s4 where s4: "discard (send_message acc [(KStr ''type'', PStr ''get_services'')]
        (Some StoreServices) s3) = (Inr (), s4)" "trace s4 = trace s3 @ [?gs]"
    using send_message_ready[OF r3 s3(3) assms(2), of "[(KStr ''type'', PStr ''get_services'')]"
        "Some StoreServices"]
    by (simp add: discard_def)
  let ?new = "?sub # n2 @ [a3, ?gs]"
  let ?reqs = "PStr ''subscribe_events'' #
              map (\<lambda>r. PStr (''config/'' @ r @ ''/list'')) (map fst regs) @
              [PStr ''get_states'', PStr ''get_services'']"
  have run: "post_auth_init regs acc s = (Inr (), s4)"
    using s1(1) s2(1) s3(1) s4(1) by (simp add: post_auth_init_def and_then_def)
  have tr: "trace s4 = trace s @ ?new" using s1 s2 s3 s4 by simp
  have len: "length ?new = length regs + 3" using s2(5) by simp
  have rq: "requests ?new = ?reqs" using s2(6) s3(5) by (simp add: dget_def)
  have c1: "count_list ?reqs (PStr ''get_states'') = 1"
    using count_other[of "''get_states''" "map fst regs"] by simp
  have c2: "count_list ?reqs (PStr ''get_services'') = 1"
    using count_other[of "''get_services''" "map fst regs"] by simp
  have c3: "list_all (\<lambda>r. count_list ?reqs (PStr (''config/'' @ r @ ''/list'')) = 1)
             (map fst regs)"
    unfolding list_all_iff using count_listing[OF assms(3)] by blast
  show ?thesis
    using run tr len c1 c2 c3 unfolding rq[symmetric]
    by (intro exI[of _ s4] exI[of _ ?new] conjI) (rule refl | assumption)+
qed


text \<open>
  C4. On a session whose handle is present and whose transport takes every frame,
  handling \<open>auth_ok\<close> runs the bootstrap to its end and writes, in this order, one
  \<open>subscribe_events\<close>, one listing request for each registry of the table, one
  \<open>get_states\<close> and one \<open>get_services\<close>, and nothing else: whatever the table, each
  configured registry is asked for exactly once, and so are the states and the services.
\<close>

theorem bootstrap_requests:
  assumes "loads raw_msg = Some (PDict d)" and "dget d ''type'' = PStr ''auth_ok''"
    and "ws s \<noteq> None" and "\<forall>f. acc f" and "distinct (map fst regs)"
  shows "\<exists>s' new. handle_message regs loads acc raw_msg s = (Inr (), s') \<and>
           trace s' = trace s @ new \<and> length new = length regs + 3 \<and>
           requests new = PStr ''subscribe_events'' #
              map (\<lambda>r. PStr (''config/'' @ r @ ''/list'')) (map fst regs) @
              [PStr ''get_states'', PStr ''get_services''] \<and>
           count_list (requests new) (PStr ''get_states'') = 1 \<and>
           count_list (requests new) (PStr ''get_services'') = 1 \<and>
           list_all (\<lambda>r. count_list (requests new) (PStr (''config/'' @ r @ ''/list'')) = 1)
             (map fst regs)"
proof -
  have "handle_message regs loads acc raw_msg s = post_auth_init regs acc s"
    using assms(1,2) by (simp add: handle_message_def)
  with post_auth_init_requests[OF assms(3,4,5)] show ?thesis by simp
qed

theorem bootstrap_requests_witness:
  "ws (ready\<lparr>authenticated := False\<rparr>) \<noteq> None \<and> (\<forall>f. accepting f) \<and>
   distinct (map fst REGISTRIES) \<and>
   (\<exists>s' new. handle_message REGISTRIES wire accepting ''auth_ok''
                (ready\<lparr>authenticated := False\<rparr>) = (Inr (), s') \<and>
      trace s' = trace (ready\<lparr>authenticated := False\<rparr>) @ new \<and> length new = 8 \<and>
      requests new =
        [PStr ''subscribe_events'', PStr ''config/entity_registry/list'',
         PStr ''config/device_registry/list'', PStr ''config/area_registry/list'',
         PStr ''config/label_registry/list'', PStr ''config/floor_registry/list'',
         PStr ''get_states'', PStr ''get_services''])"
proof -
  let ?s = "ready\<lparr>authenticated := False\<rparr>"
  have h0: "wire ''auth_ok'' = Some (PDict [(KStr ''type'', PStr ''auth_ok'')])"
    by (simp add: wire_def)
  have h0': "dget [(KStr ''type'', PStr ''auth_ok'')] ''type'' = PStr ''auth_ok''"
    by (simp add: dget_def)
  have h1: "ws ?s \<noteq> None" by (simp add: ready_def)
  have h2: "\<forall>f. accepting f" by (simp add: accepting_def)
  have h3: "distinct (map fst REGISTRIES)" by (simp add: REGISTRIES_def)
  from bootstrap_requests[where loads = wire and raw_msg = "''auth_ok''"
      and d = "[(KStr ''type'', PStr ''auth_ok'')]" and s = ?s and acc = accepting
      and regs = REGISTRIES, OF h0 h0' h1 h2 h3]
  obtain s' new where
    "handle_message REGISTRIES wire accepting ''auth_ok'' ?s = (Inr (), s')"
    "trace s' = trace ?s @ new" "length new = length REGISTRIES + 3"
    "requests new = PStr ''subscribe_events'' #
              map (\<lambda>r. PStr (''config/'' @ r @ ''/list'')) (map fst REGISTRIES) @
              [PStr ''get_states'', PStr ''get_services'']"
    by blast
  then have "handle_message REGISTRIES wire accepting ''auth_ok'' ?s = (Inr (), s') \<and>
      trace s' = trace ?s @ new \<and> length new = 8 \<and>
      requests new =
        [PStr ''subscribe_events'', PStr ''config/entity_registry/list'',
         PStr ''config/device_registry/list'', PStr ''config/area_registry/list'',
         PStr ''config/label_registry/list'', PStr ''config/floor_registry/list'',
         PStr ''get_states'', PStr ''get_services'']"
    by (simp add: REGISTRIES_def)
  with h1 h2 h3 show ?thesis by blast
qed

section \<open>Event router: a change of the entity registry\<close>

lemma registry_of_entity_event:
  "str_replace ''_updated'' [] ''entity_registry_updated'' = ''entity_registry''"
  by code_simp

lemma entity_event_suffix: "endswith ''entity_registry_updated'' ''_registry_updated''"
  by (simp add: endswith_def)

text \<open>
  C5. On a ready session whose transport takes every frame, handling an event frame of
  type \<open>entity_registry_updated\<close> writes exactly two frames, a
  \<open>config/entity_registry/list\<close> request and then a \<open>get_states\<close> request, registers
  their two callbacks and changes nothing else; no other registry is asked for.
\<close>

theorem entity_registry_updated_requests:
  assumes "loads raw_msg = Some (PDict d)"
    and "dget d ''type'' = PStr ''event''"
    and "dget_default d ''event'' (PDict []) = PDict ev"
    and "dget ev ''event_type'' = PStr ''entity_registry_updated''"
    and "map_of regs ''entity_registry'' \<noteq> None"
    and "ws s \<noteq> None" and "authenticated s" and "\<forall>f. acc f"
  shows "handle_message regs loads acc raw_msg s =
           (Inr (),
            s\<lparr>current_id := current_id s + 2,
               callbacks :=
                 AList.update (KNum (of_int (current_id s + 1))) HandleGetStates
                   (AList.update (KNum (of_int (current_id s))) (OnListResult ''entity_registry'')
                      (callbacks s)),
               trace := trace s @
                 [Sent (PDict [(KStr ''type'', PStr ''config/entity_registry/list''),
                               (KStr ''id'', PInt (current_id s))]),
                  Sent (PDict [(KStr ''type'', PStr ''get_states''),
                               (KStr ''id'', PInt (current_id s + 1))])]\<rparr>)"
proof -
  have hm: "handle_message regs loads acc raw_msg s = handle_event regs acc d s"
    using assms(1,2) by (simp add: handle_message_def)
  have he: "handle_event regs acc d s =
      and_then (refresh_registry acc ''entity_registry'' s) (get_states acc)"
    using assms(3,4,5)
    by (simp add: handle_event_def registry_of_entity_event entity_event_suffix)
  let ?s1 = "s\<lparr>current_id := current_id s + 1,
               callbacks := AList.update (KNum (of_int (current_id s)))
                              (OnListResult ''entity_registry'') (callbacks s),
               trace := trace s @
                 [Sent (PDict [(KStr ''type'', PStr ''config/entity_registry/list''),
                               (KStr ''id'', PInt (current_id s))])]\<rparr>"
  have r1: "refresh_registry acc ''entity_registry'' s = (Inr (), ?s1)"
    using assms(6,7,8) by (simp add: refresh_registry_def discard_def send_message_ready)
  have "ws ?s1 \<noteq> None" "authenticated ?s1" using assms(6,7) by simp_all
  then have r2: "get_states acc ?s1 =
      (Inr (), ?s1\<lparr>current_id := current_id ?s1 + 1,
          callbacks := AList.update (KNum (of_int (current_id ?s1))) HandleGetStates
                         (callbacks ?s1),
          trace := trace ?s1 @
             [Sent (PDict [(KStr ''type'', PStr ''get_states''),
                           (KStr ''id'', PInt (current_id ?s1))])]\<rparr>)"
    using assms(8) by (simp add: get_states_def discard_def send_message_ready)
  show ?thesis
    unfolding hm he using r1 r2 by (simp add: and_then_def)
qed

theorem entity_registry_updated_requests_witness:
  "handle_message REGISTRIES wire accepting ''entity_registry_updated'' ready =
     (Inr (),
      ready\<lparr>current_id := 3,
         callbacks := [(KNum 1, OnListResult ''entity_registry''), (KNum 2, HandleGetStates)],
         trace := [Sent (PDict [(KStr ''type'', PStr ''config/entity_registry/list''),
                                (KStr ''id'', PInt 1)]),
                   Sent (PDict [(KStr ''type'', PStr ''get_states''),
                                (KStr ''id'', PInt 2)])]\<rparr>)"
proof -
  have h: "wire ''entity_registry_updated'' =
      Some (PDict [(KStr ''id'', PInt 1), (KStr ''type'', PStr ''event''),
                (KStr ''event'',
                   PDict [(KStr ''event_type'', PStr ''entity_registry_updated''),
                          (KStr ''data'', PDict [(KStr ''action'', PStr ''update'')])])])"
    by (simp add: wire_def)
  have a: "\<forall>f. accepting f" by (simp add: accepting_def)
  show ?thesis
    using entity_registry_updated_requests[where loads = wire
        and raw_msg = "''entity_registry_updated''" and regs = REGISTRIES and s = ready
        and acc = accepting, OF h _ _ _ _ _ _ a]
    by (simp add: dget_def dget_default_def REGISTRIES_def ready_def init_def)
qed

section \<open>Receiver: a pong\<close>




section \<open>Event router: a state change\<close>

text \<open>
  C8 (as the code has it). A \<open>state_changed\<close> event whose data carry an entity id that is
  neither missing nor false, and a new state that is not \<open>None\<close>, overwrites the entry of
  the state cache under that id with the new state and leaves every other entry of the
  state cache and every other mapping of the store as they were. An event without such an
  id, or whose new state is \<open>None\<close> (the entity was removed), changes nothing.
\<close>

theorem state_changed_overwrites_one_entry:
  assumes "loads raw_msg = Some (PDict d)"
    and "dget d ''type'' = PStr ''event''"
    and "dget_default d ''event'' (PDict []) = PDict ev"
    and "dget ev ''event_type'' = PStr ''state_changed''"
    and "dget_default ev ''data'' (PDict []) = PDict dat"
  shows "(truthy (dget dat ''entity_id'') \<and> key_of (dget dat ''entity_id'') = Some k \<and>
          dget dat ''new_state'' \<noteq> PNone \<and> map_of (store s) ''states'' = Some (PDict tbl) \<longrightarrow>
            handle_message regs loads acc raw_msg s =
              (Inr (), s\<lparr>store := AList.update ''states''
                          (PDict (AList.update k (dget dat ''new_state'') tbl)) (store s)\<rparr>) \<and>
            map_of (AList.update k (dget dat ''new_state'') tbl) k = Some (dget dat ''new_state'') \<and>
            (\<forall>k'. k' \<noteq> k \<longrightarrow> map_of (AList.update k (dget dat ''new_state'') tbl) k' = map_of tbl k') \<and>
            (\<forall>r. r \<noteq> ''states'' \<longrightarrow>
                 map_of (AList.update ''states''
                          (PDict (AList.update k (dget dat ''new_state'') tbl)) (store s)) r =
                 map_of (store s) r)) \<and>
         (\<not> truthy (dget dat ''entity_id'') \<or> dget dat ''new_state'' = PNone \<longrightarrow>
            handle_message regs loads acc raw_msg s = (Inr (), s))"
proof -
  have sfx: "\<not> endswith ''state_changed'' ''_registry_updated''"
    by (simp add: endswith_def)
  have hm: "handle_message regs loads acc raw_msg s = handle_state_changed_event ev s"
    using assms(1-4) sfx by (simp add: handle_message_def handle_event_def)
  show ?thesis
    unfolding hm using assms(5)
    by (auto simp: handle_state_changed_event_def Let_def update_conv')
qed

theorem state_changed_overwrites_one_entry_witness:
  "handle_message REGISTRIES wire accepting ''kitchen on'' lit =
     (Inr (), lit\<lparr>store := AList.update ''states''
        (PDict [(KStr ''light.kitchen'',
                 PDict [(KStr ''entity_id'', PStr ''light.kitchen''),
                        (KStr ''state'', PStr ''on'')])]) (store lit)\<rparr>) \<and>
   handle_message REGISTRIES wire accepting ''kitchen removed'' lit = (Inr (), lit)"
proof -
  have h1: "wire ''kitchen on'' =
      Some (PDict [(KStr ''id'', PInt 1), (KStr ''type'', PStr ''event''),
                (KStr ''event'',
                   PDict [(KStr ''event_type'', PStr ''state_changed''),
                          (KStr ''data'',
                             PDict [(KStr ''entity_id'', PStr ''light.kitchen''),
                                    (KStr ''new_state'',
                                       PDict [(KStr ''entity_id'', PStr ''light.kitchen''),
                                              (KStr ''state'', PStr ''on'')])])])])"
    by (simp add: wire_def)
  have h2: "wire ''kitchen removed'' =
      Some (PDict [(KStr ''id'', PInt 1), (KStr ''type'', PStr ''event''),
                (KStr ''event'',
                   PDict [(KStr ''event_type'', PStr ''state_changed''),
                          (KStr ''data'',
                             PDict [(KStr ''entity_id'', PStr ''light.kitchen''),
                                    (KStr ''new_state'', PNone)])])])"
    by (simp add: wire_def)
  have s: "map_of (store lit) ''states'' = Some (PDict [(KStr ''light.kitchen'',
                     PDict [(KStr ''entity_id'', PStr ''light.kitchen''),
                            (KStr ''state'', PStr ''off'')])])"
    by (simp add: lit_def ready_def init_def REGISTRIES_def update_conv')
  have a: "handle_message REGISTRIES wire accepting ''kitchen on'' lit =
     (Inr (), lit\<lparr>store := AList.update ''states''
        (PDict [(KStr ''light.kitchen'',
                 PDict [(KStr ''entity_id'', PStr ''light.kitchen''),
                        (KStr ''state'', PStr ''on'')])]) (store lit)\<rparr>)"
    using state_changed_overwrites_one_entry[where loads = wire and raw_msg = "''kitchen on''"
        and regs = REGISTRIES and acc = accepting and s = lit and k = "KStr ''light.kitchen''"
        and tbl = "[(KStr ''light.kitchen'',
                     PDict [(KStr ''entity_id'', PStr ''light.kitchen''),
                            (KStr ''state'', PStr ''off'')])]", OF h1] s
    by (simp add: dget_def dget_default_def)
  have b: "handle_message REGISTRIES wire accepting ''kitchen removed'' lit = (Inr (), lit)"
    using state_changed_overwrites_one_entry[where loads = wire
        and raw_msg = "''kitchen removed''"
        and regs = REGISTRIES and acc = accepting and s = lit, OF h2]
    by (simp add: dget_def dget_default_def)
  from a b show ?thesis by blast
qed

text \<open>
  The kitchen light is removed: the event's new state is \<open>None\<close>, and the state cache
  keeps the light's last state.
\<close>

theorem removed_entity_keeps_its_state:
  "wire ''kitchen removed'' =
      Some (PDict [(KStr ''id'', PInt 1), (KStr ''type'', PStr ''event''),
                (KStr ''event'',
                   PDict [(KStr ''event_type'', PStr ''state_changed''),
                          (KStr ''data'',
                             PDict [(KStr ''entity_id'', PStr ''light.kitchen''),
                                    (KStr ''new_state'', PNone)])])]) \<and>
   handle_message REGISTRIES wire accepting ''kitchen removed'' lit = (Inr (), lit) \<and>
   map_of (store lit) ''states'' =
     Some (PDict [(KStr ''light.kitchen'',
                   PDict [(KStr ''entity_id'', PStr ''light.kitchen''),
                          (KStr ''state'', PStr ''off'')])])"
  by code_simp

section \<open>Cache store: a registry listing\<close>

lemma nonempty_listing_replaces_registry:
  assumes "dget m ''result'' = PList items" and "items \<noteq> []"
    and "map_of regs r = Some id_field" and "build_index id_field items [] = Inr new_data"
  shows "on_list_result regs r (PDict m) s =
           (Inr (), s\<lparr>store := AList.update r (PDict new_data) (store s)\<rparr>)"
  using assms by (simp add: on_list_result_def)

text \<open>
  C3 (where the code departs from it). A successful listing response whose result is the
  empty list is delivered to the callback of the label registry. The callback is taken
  out of the pending map and invoked, and returns at its first test: the registry cache
  still holds the label it held before, not the empty mapping.
\<close>

theorem empty_listing_keeps_old_registry:
  "wire ''result 7 empty'' =
      Some (PDict [(KStr ''id'', PInt 7), (KStr ''type'', PStr ''result''),
                   (KStr ''success'', PBool True), (KStr ''result'', PList [])]) \<and>
   map_of (callbacks listing) (KNum 7) = Some (OnListResult ''label_registry'') \<and>
   handle_message REGISTRIES wire accepting ''result 7 empty'' listing =
     (Inr (), listing\<lparr>callbacks := []\<rparr>) \<and>
   map_of (store listing) ''label_registry'' =
     Some (PDict [(KStr ''kitchen'',
                   PDict [(KStr ''id'', PStr ''kitchen''), (KStr ''name'', PStr ''Kitchen'')])])"
  by code_simp

section \<open>Correlator: what removes a pending callback\<close>

lemma keeps_refl [simp]: "keeps s s"
  by (simp add: keeps_def)

lemma keeps_trans: "keeps s t \<Longrightarrow> keeps t u \<Longrightarrow> keeps s u"
  by (auto simp: keeps_def)

lemma keeps_same: "callbacks t = callbacks s \<Longrightarrow> keeps s t"
  by (simp add: keeps_def)

lemma keeps_log: "keeps s (log a s)"
  by (simp add: keeps_def log_def)

lemma send_message_keeps: "keeps s (snd (send_message acc payload cb s))"
  by (auto simp: send_message_def Let_def keeps_def log_def update_conv' split: option.splits)

lemma refresh_registry_keeps: "keeps s (snd (refresh_registry acc r s))"
  by (simp add: refresh_registry_def send_message_keeps)

lemma get_states_keeps: "keeps s (snd (get_states acc s))"
  by (simp add: get_states_def send_message_keeps)

lemma on_list_result_keeps: "keeps s (snd (on_list_result regs r msg s))"
  by (auto simp: on_list_result_def keeps_def Let_def split: pyval.splits option.splits sum.splits)

lemma handle_get_states_keeps: "keeps s (snd (handle_get_states msg s))"
  by (auto simp: handle_get_states_def keeps_def split: pyval.splits sum.splits)

lemma store_services_keeps: "keeps s (snd (store_services msg s))"
  by (auto simp: store_services_def keeps_def split: pyval.splits)

lemma invoke_keeps: "keeps s (snd (invoke regs acc cb msg s))"
proof (induction regs acc cb msg s rule: invoke.induct)
  case (5 regs acc registry cb msg s)
  show ?case
  proof (cases "refresh_registry acc registry s")
    case (Pair r s')
    have q: "keeps s s'" using refresh_registry_keeps[of s acc registry] Pair by simp
    show ?thesis
    proof (cases r)
      case (Inl e) with Pair q show ?thesis by simp
    next
      case (Inr u)
      with 5 Pair have "keeps s' (snd (invoke regs acc cb msg s'))" by simp
      with q Pair Inr show ?thesis by (auto intro: keeps_trans)
    qed
  qed
qed (simp_all add: on_list_result_keeps handle_get_states_keeps store_services_keeps
       refresh_registry_keeps keeps_log)

lemma and_then_keeps:
  assumes "keeps s (snd r)" and "\<And>t. keeps t (snd (f t))"
  shows "keeps s (snd (and_then r f))"
proof (cases r)
  case (Pair x t)
  show ?thesis
  proof (cases x)
    case (Inl e) with Pair assms(1) show ?thesis by (simp add: and_then_def)
  next
    case (Inr u)
    with Pair assms(1) assms(2)[of t] show ?thesis
      by (auto simp: and_then_def intro: keeps_trans)
  qed
qed

lemma send_auth_keeps: "keeps s (snd (send_auth acc s))"
  by (auto simp: send_auth_def Let_def keeps_def log_def split: option.splits)

lemma refresh_all_keeps: "keeps s (snd (refresh_all acc names s))"
proof (induction names arbitrary: s)
  case Nil
  show ?case by simp
next
  case (Cons r names)
  show ?case
  proof (cases "refresh_registry acc r s")
    case (Pair x t)
    have q: "keeps s t" using refresh_registry_keeps[of s acc r] Pair by simp
    show ?thesis
    proof (cases x)
      case (Inl e) with Pair q show ?thesis by simp
    next
      case (Inr u)
      with Pair q Cons.IH[of t] show ?thesis by (auto intro: keeps_trans)
    qed
  qed
qed

lemma post_auth_init_keeps: "keeps s (snd (post_auth_init regs acc s))"
proof -
  have a: "keeps s (s\<lparr>authenticated := True\<rparr>)" by (simp add: keeps_def)
  show ?thesis
    unfolding post_auth_init_def
    by (intro and_then_keeps refresh_all_keeps get_states_keeps)
       (simp_all add: keeps_trans[OF a send_message_keeps] send_message_keeps)
qed

lemma handle_state_changed_event_keeps:
  "keeps s (snd (handle_state_changed_event ev s))"
  by (auto simp: handle_state_changed_event_def Let_def keeps_def
           split: pyval.splits option.splits sum.splits)

lemma handle_event_keeps: "keeps s (snd (handle_event regs acc data s))"
proof -
  have "keeps s (snd (and_then (refresh_registry acc r s)
           (\<lambda>s'. if r = ''entity_registry'' then get_states acc s' else (Inr (), s'))))" for r
    by (intro and_then_keeps refresh_registry_keeps) (simp add: get_states_keeps)
  then show ?thesis
    by (auto simp: handle_event_def Let_def handle_state_changed_event_keeps
             split: pyval.splits)
qed

lemma stop_keeps: "keeps s (stop s)"
  by (simp add: stop_def close_ws_def keeps_def log_def split: option.splits)

lemma attempt_reconnect_keeps: "keeps s (attempt_reconnect opened s)"
  by (simp add: attempt_reconnect_def establish_ws_def close_ws_def keeps_def log_def Let_def
           split: option.splits)

lemma ping_tick_keeps: "keeps s (snd (ping_tick acc opened now s))"
proof -
  have a: "keeps s (s\<lparr>last_ping_time := now\<rparr>)" by (simp add: keeps_def)
  have b: "keeps s (attempt_reconnect opened (s\<lparr>last_ping_time := now\<rparr>))"
    by (rule keeps_trans[OF a attempt_reconnect_keeps])
  have c: "keeps s (snd (send_message acc [(KStr ''type'', PStr ''ping'')] None
                           (s\<lparr>last_ping_time := now\<rparr>)))"
    by (rule keeps_trans[OF a send_message_keeps])
  have d: "keeps s (t\<lparr>last_ping_id := Some i\<rparr>)" if "keeps s t" for t i
    using that by (simp add: keeps_def)
  show ?thesis
    using b c d attempt_reconnect_keeps[of s opened]
    by (auto simp: ping_tick_def Let_def split: prod.splits sum.splits)
qed

lemma resolve_pending:
  assumes "map_of (callbacks s) k \<noteq> None" and "key_of msg_id \<noteq> Some k"
  shows "map_of (callbacks (snd (resolve regs acc msg_id data s))) k \<noteq> None"
proof (cases "key_of msg_id")
  case None
  with assms show ?thesis by (simp add: resolve_def)
next
  case (Some j)
  with assms(2) have jk: "j \<noteq> k" by simp
  show ?thesis
  proof (cases "map_of (callbacks s) j")
    case None
    with Some assms show ?thesis by (simp add: resolve_def)
  next
    case (Some cb)
    let ?t = "s\<lparr>callbacks := AList.delete j (callbacks s)\<rparr>"
    have "map_of (callbacks ?t) k \<noteq> None" using assms(1) jk by (simp add: delete_conv')
    moreover have "keeps ?t (snd (invoke regs acc cb data ?t))" by (rule invoke_keeps)
    ultimately have "map_of (callbacks (snd (invoke regs acc cb data ?t))) k \<noteq> None"
      by (auto simp: keeps_def)
    with Some \<open>key_of msg_id = Some j\<close> show ?thesis by (simp add: resolve_def)
  qed
qed

lemma keeps_pending: "keeps s t \<Longrightarrow> map_of (callbacks s) k \<noteq> None \<Longrightarrow> map_of (callbacks t) k \<noteq> None"
  by (auto simp: keeps_def)

lemma handle_message_pending:
  assumes "map_of (callbacks s) k \<noteq> None" and "\<not> resolves loads k raw"
  shows "map_of (callbacks (snd (handle_message regs loads acc raw s))) k \<noteq> None"
proof (cases "loads raw")
  case None
  with assms show ?thesis by (simp add: handle_message_def)
next
  case (Some v)
  show ?thesis
  proof (cases v)
    case (PDict d)
    let ?id = "dget d ''id''"
    have res: "map_of (callbacks (snd (resolve regs acc ?id (PDict d) s))) k \<noteq> None"
      if "key_of ?id \<noteq> Some k"
      using assms(1) that by (rule resolve_pending)
    have pong: "map_of (callbacks (snd (and_then (resolve regs acc ?id (PDict d) s)
                  (\<lambda>s'. (Inr (), s'\<lparr>last_ping_id := None\<rparr>))))) k \<noteq> None"
      if "key_of ?id \<noteq> Some k"
      using res[OF that] by (auto simp: and_then_def split: prod.splits sum.splits)
    from assms(2) Some PDict have nr:
      "key_of ?id \<noteq> Some k \<or>
       (dget d ''type'' \<noteq> PStr ''pong'' \<and>
        \<not> (dget d ''type'' = PStr ''result'' \<and> truthy (dget_default d ''success'' (PBool False))) \<and>
        dget d ''type'' \<in> {PStr ''auth_required'', PStr ''auth_ok'', PStr ''auth_invalid'',
                             PStr ''result'', PStr ''event''})"
      by (auto simp: resolves_def)
    show ?thesis
      using Some PDict nr res pong assms(1)
        keeps_pending[OF send_auth_keeps, of s k acc]
        keeps_pending[OF post_auth_init_keeps, of s k regs acc]
        keeps_pending[OF stop_keeps, of s k]
        keeps_pending[OF handle_event_keeps, of s k regs acc d]
      by (auto simp: handle_message_def Let_def)
  qed (use Some assms in \<open>simp_all add: handle_message_def\<close>)
qed

lemma step_pending:
  assumes "map_of (callbacks s) k \<noteq> None" and "\<not> receives_resolving loads k e"
  shows "map_of (callbacks (step regs loads acc e s)) k \<noteq> None"
proof (cases e)
  case (Tick now opened)
  with assms(1) keeps_pending[OF ping_tick_keeps, of s k acc opened now] show ?thesis
    by (simp add: step_def)
next
  case (Frame raw)
  with assms handle_message_pending[of s k loads raw regs acc] show ?thesis
    by (simp add: step_def)
next
  case ReadFailure
  with assms(1) show ?thesis by (simp add: step_def)
qed

lemma run_pending:
  assumes "map_of (callbacks s) k \<noteq> None" and "\<not> list_ex (receives_resolving loads k) es"
  shows "map_of (callbacks (run regs loads acc es s)) k \<noteq> None"
  using assms
proof (induction es arbitrary: s)
  case Nil
  then show ?case by (simp add: run_def)
next
  case (Cons e es)
  from Cons.prems have "map_of (callbacks (step regs loads acc e s)) k \<noteq> None"
    by (intro step_pending) simp_all
  from Cons.IH[OF this] Cons.prems(2) show ?case by (simp add: run_def)
qed

text \<open>
  C10. A result frame whose \<open>success\<close> is false or missing changes nothing: the callback
  pending under its id is neither invoked nor removed. A pending callback stays
  registered through every execution of the two loops in which no pong, no successful
  result and no frame of unknown type arrives with its id.
\<close>

theorem failed_result_leaves_callback:
  "(loads raw_msg = Some (PDict d) \<and> dget d ''type'' = PStr ''result'' \<and>
      \<not> truthy (dget_default d ''success'' (PBool False)) \<longrightarrow>
        handle_message regs loads acc raw_msg s = (Inr (), s)) \<and>
   (map_of (callbacks s) k \<noteq> None \<and> \<not> list_ex (receives_resolving loads k) es \<longrightarrow>
        map_of (callbacks (run regs loads acc es s)) k \<noteq> None)"
  using run_pending[of s k loads es regs acc] by (auto simp: handle_message_def)

theorem failed_result_leaves_callback_witness:
  "wire ''result 7 failed'' =
      Some (PDict [(KStr ''id'', PInt 7), (KStr ''type'', PStr ''result''),
                   (KStr ''success'', PBool False)]) \<and>
   map_of (callbacks listing) (KNum 7) = Some (OnListResult ''label_registry'') \<and>
   handle_message REGISTRIES wire accepting ''result 7 failed'' listing = (Inr (), listing) \<and>
   \<not> list_ex (receives_resolving wire (KNum 7))
        [Frame ''result 7 failed'', Tick 20 None, Frame ''kitchen on'',
         Frame ''result 7 failed''] \<and>
   map_of (callbacks (run REGISTRIES wire accepting
        [Frame ''result 7 failed'', Tick 20 None, Frame ''kitchen on'',
         Frame ''result 7 failed''] listing)) (KNum 7) \<noteq> None"
proof -
  have h1: "wire ''result 7 failed'' =
      Some (PDict [(KStr ''id'', PInt 7), (KStr ''type'', PStr ''result''),
                   (KStr ''success'', PBool False)])"
    by (simp add: wire_def)
  have h2: "map_of (callbacks listing) (KNum 7) = Some (OnListResult ''label_registry'')"
    by (simp add: listing_def)
  have h3: "\<not> list_ex (receives_resolving wire (KNum 7))
        [Frame ''result 7 failed'', Tick 20 None, Frame ''kitchen on'',
         Frame ''result 7 failed'']"
    by (simp add: resolves_def wire_def dget_def dget_default_def)
  have h4: "dget [(KStr ''id'', PInt 7), (KStr ''type'', PStr ''result''),
                   (KStr ''success'', PBool False)] ''type'' = PStr ''result'' \<and>
      \<not> truthy (dget_default [(KStr ''id'', PInt 7), (KStr ''type'', PStr ''result''),
                   (KStr ''success'', PBool False)] ''success'' (PBool False))"
    by (simp add: dget_def dget_default_def)
  from failed_result_leaves_callback[where loads = wire and raw_msg = "''result 7 failed''"
      and d = "[(KStr ''id'', PInt 7), (KStr ''type'', PStr ''result''),
                   (KStr ''success'', PBool False)]" and regs = REGISTRIES and acc = accepting
      and s = listing and k = "KNum 7"
      and es = "[Frame ''result 7 failed'', Tick 20 None, Frame ''kitchen on'',
         Frame ''result 7 failed'']"] h1 h2 h3 h4
  show ?thesis by simp
qed

end
